theory Spec2Isabelle
  imports Complex_Main "HOL-Library.Sublist"
begin

section \<open>Go runtime: nil pointers and panics\<close>

text \<open>
  A Go pointer \<^verbatim>\<open>*string\<close> is modelled as \<open>string option\<close>, \<open>None\<close> being
  \<^verbatim>\<open>nil\<close>. Dereferencing \<^verbatim>\<open>nil\<close> panics; a function that can panic returns
  \<open>panic + 'a\<close>, with \<open>Inl\<close> for the panic.
\<close>

datatype panic = NilPointerDereference

definition deref :: "'a option \<Rightarrow> panic + 'a" where
  "deref p = (case p of None \<Rightarrow> Inl NilPointerDereference | Some v \<Rightarrow> Inr v)"

text \<open>
  A Go \<^verbatim>\<open>error\<close> value. The code tells errors apart only by
  \<^verbatim>\<open>errors.As(err, &rnf)\<close> with \<^verbatim>\<open>rnf *types.ResourceNotFoundException\<close>, so an
  error is either of that type or any other one; both carry their message.
\<close>

datatype error = ResourceNotFoundException string | OtherError string

fun isResourceNotFound :: "error \<Rightarrow> bool" where
  "isResourceNotFound (ResourceNotFoundException msg) = True"
| "isResourceNotFound (OtherError msg) = False"

text \<open>Go's integer division truncates towards zero.\<close>

definition quo :: "int \<Rightarrow> int \<Rightarrow> int" where
  "quo a b = sgn a * sgn b * (\<bar>a\<bar> div \<bar>b\<bar>)"

section \<open>Package dimension (test/metric/dimension/provider.go)\<close>

text \<open>
  \<^verbatim>\<open>types.Dimension\<close> of the CloudWatch SDK: two string pointers. The Go comparison
  \<^verbatim>\<open>dim != types.Dimension{}\<close> compares both pointers with \<^verbatim>\<open>nil\<close>. The Go
  variable \<^verbatim>\<open>dim\<close> is written \<open>dimn\<close> below, \<open>dim\<close> being a constant of the library.
\<close>

record Dimension =
  Name :: "string option"
  Value :: "string option"

definition emptyDimension :: Dimension where
  "emptyDimension = \<lparr>Name = None, Value = None\<rparr>"

record ExpectedDimensionValue =
  Value :: "string option"

definition IsKnown :: "ExpectedDimensionValue \<Rightarrow> bool" where
  "IsKnown d = (ExpectedDimensionValue.Value d = None)"

definition UnknownDimensionValue :: ExpectedDimensionValue where
  "UnknownDimensionValue = \<lparr>ExpectedDimensionValue.Value = None\<rparr>"

record Instruction =
  Key :: string
  Value :: ExpectedDimensionValue

text \<open>
  The interface \<^verbatim>\<open>IProvider\<close>: the two methods of a provider, already applied to the
  environment the provider holds.
\<close>

record IProvider =
  IsApplicable :: bool
  GetDimension :: "Instruction \<Rightarrow> Dimension"

record Factory =
  providers :: "IProvider list"

text \<open>
  \<^verbatim>\<open>GetDimensionFactory\<close> keeps the applicable providers in their order. The five
  concrete providers are not part of the sources at hand, so the list of all providers
  is a parameter.
\<close>

definition GetDimensionFactory :: "IProvider list \<Rightarrow> Factory" where
  "GetDimensionFactory allDimensionProviders =
     \<lparr>providers = filter IsApplicable allDimensionProviders\<rparr>"

fun executeInstruction_loop :: "IProvider list \<Rightarrow> Instruction \<Rightarrow> Dimension" where
  "executeInstruction_loop [] instruction = emptyDimension"
| "executeInstruction_loop (provider # rest) instruction =
     (let dimn = GetDimension provider instruction in
      if dimn \<noteq> emptyDimension then dimn
      else executeInstruction_loop rest instruction)"

definition executeInstruction :: "Factory \<Rightarrow> Instruction \<Rightarrow> Dimension" where
  "executeInstruction f instruction = executeInstruction_loop (providers f) instruction"

text \<open>
  The state of the loop of \<^verbatim>\<open>GetDimensions\<close>: the two result slices and the lines
  written by \<^verbatim>\<open>log.Printf\<close>. The arguments of \<^verbatim>\<open>log.Printf\<close> are evaluated before
  the call, so \<^verbatim>\<open>*dim.Name\<close> and \<^verbatim>\<open>*dim.Value\<close> are dereferenced in both branches.
\<close>

record GetDimensionsState =
  resultDimensions :: "Dimension list"
  unfulfilledInstructions :: "Instruction list"
  logged :: "string list"

definition logDimension :: "string \<Rightarrow> Dimension \<Rightarrow> GetDimensionsState \<Rightarrow> panic + GetDimensionsState" where
  "logDimension label dimn s =
     (case deref (Name dimn) of
        Inl p \<Rightarrow> Inl p
      | Inr n \<Rightarrow>
          (case deref (Dimension.Value dimn) of
             Inl p \<Rightarrow> Inl p
           | Inr v \<Rightarrow> Inr (s\<lparr>logged := logged s @ [label @ n @ '', '' @ v]\<rparr>)))"

definition GetDimensions_body :: "Factory \<Rightarrow> Instruction \<Rightarrow> GetDimensionsState \<Rightarrow> panic + GetDimensionsState" where
  "GetDimensions_body f instruction s =
     (let dimn = executeInstruction f instruction in
      if dimn \<noteq> emptyDimension then
        logDimension ''Result dim is : '' dimn
          (s\<lparr>resultDimensions := resultDimensions s @ [dimn]\<rparr>)
      else
        logDimension ''unfulfilled dim is : '' dimn
          (s\<lparr>unfulfilledInstructions := unfulfilledInstructions s @ [instruction]\<rparr>))"

fun GetDimensions_loop :: "Factory \<Rightarrow> Instruction list \<Rightarrow> GetDimensionsState \<Rightarrow> panic + GetDimensionsState" where
  "GetDimensions_loop f [] s = Inr s"
| "GetDimensions_loop f (instruction # rest) s =
     (case GetDimensions_body f instruction s of
        Inl p \<Rightarrow> Inl p
      | Inr s' \<Rightarrow> GetDimensions_loop f rest s')"

definition GetDimensions_run :: "Factory \<Rightarrow> Instruction list \<Rightarrow> panic + GetDimensionsState" where
  "GetDimensions_run f instructions =
     GetDimensions_loop f instructions
       \<lparr>resultDimensions = [], unfulfilledInstructions = [], logged = []\<rparr>"

definition GetDimensions :: "Factory \<Rightarrow> Instruction list \<Rightarrow> panic + (Dimension list \<times> Instruction list)" where
  "GetDimensions f instructions =
     (case GetDimensions_run f instructions of
        Inl p \<Rightarrow> Inl p
      | Inr s \<Rightarrow> Inr (resultDimensions s, unfulfilledInstructions s))"

section \<open>The metric runners (SwapTestRunner, MemTestRunner)\<close>

text \<open>
  Modelled from the spec: package \<^verbatim>\<open>status\<close> is not among the sources; the spec
  gives the closed enumeration successful, failed, skipped, and a test result as a name
  with a status.
\<close>

datatype Status = SUCCESSFUL | FAILED | SKIPPED

record TestResult =
  Name :: string
  Status :: Status

text \<open>
  Modelled from the spec: package \<^verbatim>\<open>metric\<close> is not among the sources; the spec lists
  the statistics average, sum, min, max and sample-count.
\<close>

datatype Statistic = AVERAGE | SUM | MINIMUM | MAXIMUM | SAMPLE_COUNT

text \<open>
  A \<^verbatim>\<open>float64\<close> sample. Only its order against zero is read, so a finite value is
  represented by the real number it denotes; the IEEE comparisons with infinities and
  NaN are written out.
\<close>

datatype float64 = Finite real | PosInf | NegInf | NaN

fun geZero :: "float64 \<Rightarrow> bool" where
  "geZero (Finite r) = (0 \<le> r)"
| "geZero PosInf = True"
| "geZero NegInf = False"
| "geZero NaN = False"

fun ltZero :: "float64 \<Rightarrow> bool" where
  "ltZero (Finite r) = (r < 0)"
| "ltZero PosInf = False"
| "ltZero NegInf = True"
| "ltZero NaN = False"

text \<open>
  Modelled from the spec: \<^verbatim>\<open>isAllValuesGreaterThanOrEqualToZero\<close> is called by both
  runners and is not among the sources. The spec: without Bounds every value must
  satisfy value \<open>\<ge>\<close> 0, and the sequence must be non-empty to qualify as successful.
\<close>

definition isAllValuesGreaterThanOrEqualToZero :: "string \<Rightarrow> float64 list \<Rightarrow> bool" where
  "isAllValuesGreaterThanOrEqualToZero metricName values =
     (values \<noteq> [] \<and> list_all geZero values)"

text \<open>
  \<^verbatim>\<open>MetricValueFetcher.Fetch\<close> queries the remote service; it is a parameter of the
  runners. A runner returns, next to its result, the list of the \<^verbatim>\<open>Fetch\<close> calls it
  made.
\<close>

type_synonym FetchCall = "string \<times> string \<times> Dimension list \<times> Statistic"

type_synonym Fetch = "string \<Rightarrow> string \<Rightarrow> Dimension list \<Rightarrow> Statistic \<Rightarrow> error + float64 list"

record BaseTestRunner =
  DimensionFactory :: Factory

type_synonym SwapTestRunner = BaseTestRunner

type_synonym MemTestRunner = BaseTestRunner

definition instanceIdInstruction :: Instruction where
  "instanceIdInstruction = \<lparr>Key = ''InstanceId'', Value = UnknownDimensionValue\<rparr>"

definition validateSwapMetric ::
  "SwapTestRunner \<Rightarrow> string \<Rightarrow> Fetch \<Rightarrow> string \<Rightarrow> (panic + TestResult) \<times> FetchCall list" where
  "validateSwapMetric t namespace fetch metricName =
     (let testResult = \<lparr>Name = metricName, Status = FAILED\<rparr> in
      case GetDimensions (DimensionFactory t) [instanceIdInstruction] of
        Inl p \<Rightarrow> (Inl p, [])
      | Inr (dims, failed) \<Rightarrow>
          if length failed > 0 then (Inr testResult, [])
          else
            (case fetch namespace metricName dims AVERAGE of
               Inl err \<Rightarrow> (Inr testResult, [(namespace, metricName, dims, AVERAGE)])
             | Inr values \<Rightarrow>
                 if \<not> isAllValuesGreaterThanOrEqualToZero metricName values
                 then (Inr testResult, [(namespace, metricName, dims, AVERAGE)])
                 else (Inr (testResult\<lparr>Status := SUCCESSFUL\<rparr>),
                       [(namespace, metricName, dims, AVERAGE)])))"

definition validateMemMetric ::
  "MemTestRunner \<Rightarrow> string \<Rightarrow> Fetch \<Rightarrow> string \<Rightarrow> (panic + TestResult) \<times> FetchCall list" where
  "validateMemMetric m namespace fetch metricName =
     (let testResult = \<lparr>Name = metricName, Status = FAILED\<rparr> in
      case GetDimensions (DimensionFactory m) [instanceIdInstruction] of
        Inl p \<Rightarrow> (Inl p, [])
      | Inr (dims, failed) \<Rightarrow>
          if length failed > 0 then (Inr testResult, [])
          else
            (case fetch namespace metricName dims AVERAGE of
               Inl err \<Rightarrow> (Inr testResult, [(namespace, metricName, dims, AVERAGE)])
             | Inr values \<Rightarrow>
                 if \<not> isAllValuesGreaterThanOrEqualToZero metricName values
                 then (Inr testResult, [(namespace, metricName, dims, AVERAGE)])
                 else (Inr (testResult\<lparr>Status := SUCCESSFUL\<rparr>),
                       [(namespace, metricName, dims, AVERAGE)])))"

section \<open>Package awsservice (internal/awsservice/cloudwatchlogs.go)\<close>

text \<open>The SDK types, with the fields the code reads or writes.\<close>

record LogGroup =
  LogGroupName :: "string option"

record DescribeLogGroupsInput =
  LogGroupNamePrefix :: "string option"

record DescribeLogGroupsOutput =
  LogGroups :: "LogGroup list"

record OutputLogEvent =
  Message :: "string option"

record GetLogEventsInput =
  LogGroupName :: "string option"
  LogStreamName :: "string option"
  StartFromHead :: "bool option"
  StartTime :: "int option"
  EndTime :: "int option"
  NextToken :: "string option"

record GetLogEventsOutput =
  Events :: "OutputLogEvent list"
  NextForwardToken :: "string option"

text \<open>
  A \<^verbatim>\<open>time.Time\<close>, by the \<^verbatim>\<open>int64\<close> that \<^verbatim>\<open>UnixNano()\<close> returns for it, and
  \<^verbatim>\<open>time.Minute\<close>, a duration in nanoseconds.
\<close>

record Time =
  UnixNano :: int

definition Minute :: int where
  "Minute = 60 * 1000000000"

definition allowedRetries :: int where
  "allowedRetries = 5"

text \<open>
  The remote service as the SDK shows it: the operations take the state \<open>'b\<close> of the
  service and return their result with the next state, so that the same request can be
  answered differently from one call to the next. \<^verbatim>\<open>config.LoadDefaultConfig\<close> fails
  or succeeds.
\<close>

record 'b sdk =
  LoadDefaultConfig :: "'b \<Rightarrow> error option"
  GetLogEvents :: "'b \<Rightarrow> GetLogEventsInput \<Rightarrow> (error + GetLogEventsOutput) \<times> 'b"
  DescribeLogGroups :: "'b \<Rightarrow> DescribeLogGroupsInput \<Rightarrow> (error + DescribeLogGroupsOutput) \<times> 'b"

text \<open>
  The state the package acts on: the package variable \<^verbatim>\<open>cwl\<close> (nil until the client is
  made), the remote service, and what the run did so far: the \<^verbatim>\<open>GetLogEvents\<close> calls
  with their answers, the durations passed to \<^verbatim>\<open>time.Sleep\<close>, and the arguments the
  validator function was called with.
\<close>

datatype Client = Client

type_synonym GetLogEventsCall = "GetLogEventsInput \<times> (error + GetLogEventsOutput)"

record 'b world =
  cwl :: "Client option"
  remote :: 'b
  calls :: "GetLogEventsCall list"
  slept :: "int list"
  validatorCalls :: "string list list"

definition getCloudWatchLogsClient :: "'b sdk \<Rightarrow> 'b world \<Rightarrow> error option \<times> 'b world" where
  "getCloudWatchLogsClient api w =
     (if cwl w = None then
        (case LoadDefaultConfig api (remote w) of
           Some err \<Rightarrow> (Some err, w)
         | None \<Rightarrow> (None, w\<lparr>cwl := Some Client\<rparr>))
      else (None, w))"

text \<open>The variables of the loop of \<^verbatim>\<open>getLogsSince\<close>.\<close>

record LoopState =
  params :: GetLogEventsInput
  nextToken :: "string option"
  attempts :: int
  foundLogs :: "string list"

text \<open>The request of one iteration: \<^verbatim>\<open>params\<close> after the update of its token.\<close>

definition request :: "LoopState \<Rightarrow> GetLogEventsInput" where
  "request s =
     (if nextToken s \<noteq> None then (params s)\<lparr>NextToken := nextToken s\<rparr> else params s)"

fun appendMessages :: "string list \<Rightarrow> OutputLogEvent list \<Rightarrow> panic + string list" where
  "appendMessages logs [] = Inr logs"
| "appendMessages logs (e # es) =
     (case deref (Message e) of
        Inl p \<Rightarrow> Inl p
      | Inr m \<Rightarrow> appendMessages (logs @ [m]) es)"

text \<open>
  The loop has no bound of its own, so the model takes fuel, one unit for each
  iteration; the result \<open>None\<close> says that the loop was still running when the fuel ran
  out. A returned pair is the Go result \<^verbatim>\<open>(foundLogs, err)\<close>. The counter
  \<^verbatim>\<open>attempts\<close> is a Go \<^verbatim>\<open>int\<close>; it is an unbounded integer here, as it grows by one
  for each call made.
\<close>

type_synonym 'a outcome = "(panic + 'a) option"

fun getLogsSince_loop ::
  "nat \<Rightarrow> 'b sdk \<Rightarrow> LoopState \<Rightarrow> 'b world \<Rightarrow> (string list \<times> error option) outcome \<times> 'b world" where
  "getLogsSince_loop 0 api s w = (None, w)"
| "getLogsSince_loop (Suc fuel) api s w =
     (case GetLogEvents api (remote w) (request s) of
        (Inl err, b) \<Rightarrow>
          if isResourceNotFound err \<and> attempts s + 1 \<le> allowedRetries then
            getLogsSince_loop fuel api
              (s\<lparr>params := request s, attempts := attempts s + 1\<rparr>)
              (w\<lparr>remote := b, calls := calls w @ [(request s, Inl err)],
                 slept := slept w @ [Minute]\<rparr>)
          else
            (Some (Inr (foundLogs s, Some err)),
             w\<lparr>remote := b, calls := calls w @ [(request s, Inl err)]\<rparr>)
      | (Inr output, b) \<Rightarrow>
          (case appendMessages (foundLogs s) (Events output) of
             Inl p \<Rightarrow>
               (Some (Inl p), w\<lparr>remote := b, calls := calls w @ [(request s, Inr output)]\<rparr>)
           | Inr logs \<Rightarrow>
               if nextToken s \<noteq> None \<and> NextForwardToken output \<noteq> None
                  \<and> NextForwardToken output = nextToken s
               then
                 (Some (Inr (logs, None)),
                  w\<lparr>remote := b, calls := calls w @ [(request s, Inr output)]\<rparr>)
               else
                 getLogsSince_loop fuel api
                   (s\<lparr>params := request s, nextToken := NextForwardToken output,
                      attempts := attempts s + 1, foundLogs := logs\<rparr>)
                   (w\<lparr>remote := b, calls := calls w @ [(request s, Inr output)]\<rparr>)))"

definition initialParams :: "string \<Rightarrow> string \<Rightarrow> Time option \<Rightarrow> Time option \<Rightarrow> GetLogEventsInput" where
  "initialParams logGroup logStream since until =
     (let params0 = \<lparr>LogGroupName = Some logGroup, LogStreamName = Some logStream,
                      StartFromHead = Some True, StartTime = None, EndTime = None,
                      NextToken = None\<rparr>;
          params1 = (case since of
                       None \<Rightarrow> params0
                     | Some t \<Rightarrow> params0\<lparr>StartTime := Some (quo (UnixNano t) 1000000)\<rparr>)
      in case until of
           None \<Rightarrow> params1
         | Some t \<Rightarrow> params1\<lparr>EndTime := Some (quo (UnixNano t) 1000000)\<rparr>)"

definition getLogsSince ::
  "nat \<Rightarrow> 'b sdk \<Rightarrow> string \<Rightarrow> string \<Rightarrow> Time option \<Rightarrow> Time option \<Rightarrow> 'b world
     \<Rightarrow> (string list \<times> error option) outcome \<times> 'b world" where
  "getLogsSince fuel api logGroup logStream since until w =
     (case getCloudWatchLogsClient api w of
        (Some err, w1) \<Rightarrow> (Some (Inr ([], Some err)), w1)
      | (None, w1) \<Rightarrow>
          getLogsSince_loop fuel api
            \<lparr>params = initialParams logGroup logStream since until, nextToken = None,
             attempts = 0, foundLogs = []\<rparr> w1)"

text \<open>
  \<^verbatim>\<open>ValidateLogs\<close> first formats \<^verbatim>\<open>since.UTC()\<close> for its log line, which dereferences
  \<^verbatim>\<open>since\<close>.
\<close>

definition ValidateLogs ::
  "nat \<Rightarrow> 'b sdk \<Rightarrow> string \<Rightarrow> string \<Rightarrow> Time option \<Rightarrow> Time option \<Rightarrow> (string list \<Rightarrow> bool)
     \<Rightarrow> 'b world \<Rightarrow> (bool \<times> error option) outcome \<times> 'b world" where
  "ValidateLogs fuel api logGroup logStream since until validator w =
     (case deref since of
        Inl p \<Rightarrow> (Some (Inl p), w)
      | Inr t \<Rightarrow>
          (case getLogsSince fuel api logGroup logStream since until w of
             (None, w1) \<Rightarrow> (None, w1)
           | (Some (Inl p), w1) \<Rightarrow> (Some (Inl p), w1)
           | (Some (Inr (logs, Some err)), w1) \<Rightarrow> (Some (Inr (False, Some err)), w1)
           | (Some (Inr (logs, None)), w1) \<Rightarrow>
               (Some (Inr (validator logs, None)),
                w1\<lparr>validatorCalls := validatorCalls w1 @ [logs]\<rparr>)))"

definition IsLogGroupExists :: "'b sdk \<Rightarrow> string \<Rightarrow> 'b world \<Rightarrow> bool \<times> 'b world" where
  "IsLogGroupExists api logGroupName w =
     (case getCloudWatchLogsClient api w of
        (Some err, w1) \<Rightarrow> (False, w1)
      | (None, w1) \<Rightarrow>
          (case DescribeLogGroups api (remote w1) \<lparr>LogGroupNamePrefix = Some logGroupName\<rparr> of
             (Inl err, b) \<Rightarrow> (False, w1\<lparr>remote := b\<rparr>)
           | (Inr output, b) \<Rightarrow> (length (LogGroups output) > 0, w1\<lparr>remote := b\<rparr>)))"

section \<open>Predicates and inputs used in the statements\<close>

text \<open>An instruction is fully resolved when its dimension has both pointers set.\<close>

definition fullyResolved :: "Factory \<Rightarrow> Instruction \<Rightarrow> bool" where
  "fullyResolved f i =
     (Dimension.Name (executeInstruction f i) \<noteq> None \<and>
      Dimension.Value (executeInstruction f i) \<noteq> None)"

text \<open>
  Two providers for concrete runs: one that answers an instruction carrying a literal
  with that literal, one that answers the key \<^verbatim>\<open>InstanceId\<close> with a fixed instance id.
\<close>

definition literalProvider :: IProvider where
  "literalProvider =
     \<lparr>IsApplicable = True,
      GetDimension = (\<lambda>i. case ExpectedDimensionValue.Value (Instruction.Value i) of
                              None \<Rightarrow> emptyDimension
                            | Some v \<Rightarrow> \<lparr>Dimension.Name = Some (Key i), Value = Some v\<rparr>)\<rparr>"

definition instanceIdProvider :: IProvider where
  "instanceIdProvider =
     \<lparr>IsApplicable = True,
      GetDimension = (\<lambda>i. if Key i = ''InstanceId''
                           then \<lparr>Dimension.Name = Some ''InstanceId'', Value = Some ''i-0123456789''\<rparr>
                           else emptyDimension)\<rparr>"

text \<open>
  What a trace of \<^verbatim>\<open>GetLogEvents\<close> calls holds: the errors of its failed calls, the
  outputs of its successful calls (the pages), the messages of a page, and whether every
  event of a page has a message.
\<close>

fun failures :: "GetLogEventsCall list \<Rightarrow> error list" where
  "failures [] = []"
| "failures ((req, Inl err) # cs) = err # failures cs"
| "failures ((req, Inr output) # cs) = failures cs"

fun pages :: "GetLogEventsCall list \<Rightarrow> GetLogEventsOutput list" where
  "pages [] = []"
| "pages ((req, Inl err) # cs) = pages cs"
| "pages ((req, Inr output) # cs) = output # pages cs"

definition messages :: "GetLogEventsOutput \<Rightarrow> string list" where
  "messages output = List.map_filter Message (Events output)"

definition complete :: "GetLogEventsOutput \<Rightarrow> bool" where
  "complete output = list_all (\<lambda>e. Message e \<noteq> None) (Events output)"

text \<open>
  The failed calls of a run that were followed by another attempt: all of them, but for
  the last one when the run returned an error.
\<close>

definition retried :: "GetLogEventsCall list \<Rightarrow> (string list \<times> error option) outcome \<Rightarrow> error list" where
  "retried cs r =
     (case r of
        Some (Inr (logs, Some err)) \<Rightarrow> butlast (failures cs)
      | _ \<Rightarrow> failures cs)"

text \<open>The token a call sent and the token its answer carried.\<close>

definition tokens :: "GetLogEventsCall \<Rightarrow> string option \<times> string option" where
  "tokens c =
     (NextToken (fst c), case snd c of Inl err \<Rightarrow> None | Inr output \<Rightarrow> NextForwardToken output)"

text \<open>
  What holds of a run of the loop that started with \<open>a\<close> attempts and the logs
  \<open>logs0\<close>, made the calls \<open>new\<close>, slept \<open>k\<close> times and ended with \<open>r\<close>.
\<close>

definition loop_post ::
  "int \<Rightarrow> string list \<Rightarrow> GetLogEventsCall list \<Rightarrow> nat \<Rightarrow> (string list \<times> error option) outcome \<Rightarrow> bool" where
  "loop_post a logs0 new k r =
     (int k \<le> max 0 (allowedRetries - a) \<and>
      list_all isResourceNotFound (retried new r) \<and> k = length (retried new r) \<and>
      (case r of
         None \<Rightarrow> True
       | Some (Inl p) \<Rightarrow> True
       | Some (Inr (logs, oerr)) \<Rightarrow>
           logs = logs0 @ concat (map messages (pages new)) \<and>
           list_all complete (pages new) \<and> new \<noteq> [] \<and>
           (case oerr of
              Some err \<Rightarrow>
                snd (last new) = Inl err \<and>
                (\<not> isResourceNotFound err \<or> allowedRetries < a + int (length new))
            | None \<Rightarrow>
                (\<exists>req output. last new = (req, Inr output) \<and> NextToken req \<noteq> None \<and>
                   NextForwardToken output = NextToken req))))"

text \<open>
  Remote services for concrete runs. The first answers \<^verbatim>\<open>GetLogEvents\<close> from a script,
  one answer for each call, and fails once the script is used up. The second holds the
  names of the existing log groups and answers \<^verbatim>\<open>DescribeLogGroups\<close> with the groups
  whose name starts with the prefix asked for.
\<close>

definition scripted :: "((error + GetLogEventsOutput) list) sdk" where
  "scripted =
     \<lparr>LoadDefaultConfig = (\<lambda>b. None),
      GetLogEvents = (\<lambda>b input. case b of
                         [] \<Rightarrow> (Inl (OtherError ''end of script''), [])
                       | r # rs \<Rightarrow> (r, rs)),
      DescribeLogGroups = (\<lambda>b input. (Inr \<lparr>LogGroups = []\<rparr>, b))\<rparr>"

definition groupsService :: "(string list) sdk" where
  "groupsService =
     \<lparr>LoadDefaultConfig = (\<lambda>b. None),
      GetLogEvents = (\<lambda>b input. (Inl (ResourceNotFoundException ''no stream''), b)),
      DescribeLogGroups = (\<lambda>b input.
         (case LogGroupNamePrefix input of
            None \<Rightarrow> Inl (OtherError ''no prefix'')
          | Some p \<Rightarrow> Inr \<lparr>LogGroups = map (\<lambda>n. \<lparr>LogGroup.LogGroupName = Some n\<rparr>) (filter (prefix p) b)\<rparr>,
          b))\<rparr>"

definition notFound :: "error + GetLogEventsOutput" where
  "notFound = Inl (ResourceNotFoundException ''log stream'')"

definition twoPages :: "(error + GetLogEventsOutput) list" where
  "twoPages =
     [notFound, notFound,
      Inr \<lparr>Events = [\<lparr>Message = Some ''a''\<rparr>, \<lparr>Message = Some ''b''\<rparr>], NextForwardToken = Some ''t1''\<rparr>,
      Inr \<lparr>Events = [\<lparr>Message = Some ''c''\<rparr>], NextForwardToken = Some ''t1''\<rparr>]"

definition world0 :: "'b \<Rightarrow> 'b world" where
  "world0 b = \<lparr>cwl = None, remote = b, calls = [], slept = [], validatorCalls = []\<rparr>"

text \<open>
  The rule of the retries, read off the calls \<open>new\<close> of a run of the loop that started
  with \<open>a\<close> attempts and \<open>fuel\<close> units of fuel and ended with \<open>r\<close>: a failed call
  is followed by a call with the same request when its error is a resource-not-found
  error and the counter, this call included, is at most \<^verbatim>\<open>allowedRetries\<close> (unless the
  fuel ends there); any other failed call is the last one, and its error is returned.
  A run ends without a result only when the fuel is used up.
\<close>

definition retryRule :: "nat \<Rightarrow> int \<Rightarrow> GetLogEventsCall list \<Rightarrow> (string list \<times> error option) outcome \<Rightarrow> bool" where
  "retryRule fuel a new r =
     ((r = None \<longrightarrow> length new = fuel) \<and>
      (\<forall>i err. i < length new \<and> snd (new ! i) = Inl err \<longrightarrow>
         (if isResourceNotFound err \<and> a + int i + 1 \<le> allowedRetries
          then (Suc i < length new \<and> fst (new ! Suc i) = fst (new ! i)) \<or>
               (Suc i = length new \<and> r = None)
          else Suc i = length new \<and> (\<exists>logs. r = Some (Inr (logs, Some err))))))"

definition page :: "string \<Rightarrow> string \<Rightarrow> error + GetLogEventsOutput" where
  "page m t = Inr \<lparr>Events = [\<lparr>Message = Some m\<rparr>], NextForwardToken = Some t\<rparr>"

definition fivePagesThenNotFound :: "(error + GetLogEventsOutput) list" where
  "fivePagesThenNotFound =
     [page ''m1'' ''t1'', page ''m2'' ''t2'', page ''m3'' ''t3'', page ''m4'' ''t4'',
      page ''m5'' ''t5'', notFound, page ''m6'' ''t6'']"

section \<open>Properties of the dimension factory\<close>

lemma logDimension_empty: "logDimension label emptyDimension s = Inl NilPointerDereference"
  by (simp add: logDimension_def emptyDimension_def deref_def)

text \<open>
  C9. \<^verbatim>\<open>IsKnown\<close> is true exactly when the value pointer is nil, and the value made by
  \<^verbatim>\<open>UnknownDimensionValue\<close> satisfies it.
\<close>

theorem IsKnown_iff_nil:
  "(IsKnown d = (ExpectedDimensionValue.Value d = None)) \<and> IsKnown UnknownDimensionValue"
  by (simp add: IsKnown_def UnknownDimensionValue_def)

subsection \<open>executeInstruction\<close>

lemma executeInstruction_loop_find:
  "executeInstruction_loop ps i =
     (case find (\<lambda>p. GetDimension p i \<noteq> emptyDimension) ps of
        None \<Rightarrow> emptyDimension
      | Some p \<Rightarrow> GetDimension p i)"
  by (induction ps) (simp_all add: Let_def)

text \<open>
  C2, as the code has it. \<^verbatim>\<open>executeInstruction\<close> never reads the expected value of the
  instruction: whether a literal is supplied or not, the result is the answer of the
  first provider of the factory, in order, whose answer is not the empty dimension, and
  the empty dimension when there is none.
\<close>

theorem executeInstruction_first_answer:
  "executeInstruction f instruction =
     (case find (\<lambda>p. GetDimension p instruction \<noteq> emptyDimension) (providers f) of
        None \<Rightarrow> emptyDimension
      | Some p \<Rightarrow> GetDimension p instruction)"
  by (simp add: executeInstruction_def executeInstruction_loop_find)

text \<open>
  C2 as stated fails: with no provider, an instruction that carries the literal
  \<^verbatim>\<open>i-0abc\<close> is resolved to the empty dimension, not to the pair of its key and its
  literal; with a provider that answers it, the same instruction is resolved to that
  pair, so the result depends on the providers.
\<close>

theorem executeInstruction_known_counterexample:
  "executeInstruction \<lparr>providers = []\<rparr>
     \<lparr>Key = ''InstanceId'', Value = \<lparr>ExpectedDimensionValue.Value = Some ''i-0abc''\<rparr>\<rparr>
     = emptyDimension
   \<and> emptyDimension \<noteq> \<lparr>Dimension.Name = Some ''InstanceId'', Value = Some ''i-0abc''\<rparr>
   \<and> executeInstruction \<lparr>providers = [literalProvider]\<rparr>
     \<lparr>Key = ''InstanceId'', Value = \<lparr>ExpectedDimensionValue.Value = Some ''i-0abc''\<rparr>\<rparr>
     = \<lparr>Dimension.Name = Some ''InstanceId'', Value = Some ''i-0abc''\<rparr>"
  by (simp add: executeInstruction_def emptyDimension_def literalProvider_def)

subsection \<open>GetDimensions\<close>

lemma GetDimensions_body_eq:
  "GetDimensions_body f i s =
     (if fullyResolved f i
      then Inr (s\<lparr>resultDimensions := resultDimensions s @ [executeInstruction f i],
                  logged := logged s @
                    [''Result dim is : '' @ the (Dimension.Name (executeInstruction f i)) @ '', '' @
                     the (Dimension.Value (executeInstruction f i))]\<rparr>)
      else Inl NilPointerDereference)"
  by (cases "executeInstruction f i")
    (auto simp: GetDimensions_body_def logDimension_def deref_def emptyDimension_def Let_def
      fullyResolved_def split: option.splits)

lemma GetDimensions_loop_eq:
  "GetDimensions_loop f is s =
     (if list_all (fullyResolved f) is
      then Inr (s\<lparr>resultDimensions := resultDimensions s @ map (executeInstruction f) is,
                  logged := logged s @
                    map (\<lambda>i. ''Result dim is : '' @ the (Dimension.Name (executeInstruction f i)) @ '', '' @
                         the (Dimension.Value (executeInstruction f i))) is\<rparr>)
      else Inl NilPointerDereference)"
  by (induction "is" arbitrary: s) (simp_all add: GetDimensions_body_eq)

lemma not_fullyResolved_empty: "executeInstruction f i = emptyDimension \<Longrightarrow> \<not> fullyResolved f i"
  by (simp add: fullyResolved_def emptyDimension_def)

text \<open>
  \<^verbatim>\<open>GetDimensions\<close> returns exactly when every instruction is fully resolved, and then
  the list of unfulfilled instructions is empty: an instruction that no provider
  resolves never reaches the caller.
\<close>

lemma GetDimensions_returns_iff:
  "(GetDimensions f instructions = Inr (resolved, unfulfilled)) =
     (list_all (fullyResolved f) instructions \<and>
      resolved = map (executeInstruction f) instructions \<and> unfulfilled = [])"
  by (auto simp: GetDimensions_def GetDimensions_run_def GetDimensions_loop_eq)

lemma GetDimensions_loop_unfulfilled:
  "i \<in> set is \<Longrightarrow> executeInstruction f i = emptyDimension \<Longrightarrow>
   GetDimensions_loop f is s = Inl NilPointerDereference"
  using not_fullyResolved_empty [of f i]
  by (auto simp: GetDimensions_loop_eq list_all_iff)

lemma GetDimensions_unfulfilled:
  "i \<in> set instructions \<Longrightarrow> executeInstruction f i = emptyDimension \<Longrightarrow>
   GetDimensions f instructions = Inl NilPointerDereference"
  by (simp add: GetDimensions_def GetDimensions_run_def GetDimensions_loop_unfulfilled)

text \<open>
  C1, at an input where the code departs from it. The first instruction is resolved by
  the provider and the second one by none; \<^verbatim>\<open>GetDimensions\<close> then panics on the log
  line of the unfulfilled branch and hands out neither list, where the claim has one
  resolved dimension and one unfulfilled instruction.
\<close>

theorem GetDimensions_partition_failing_input:
  "GetDimensions \<lparr>providers = [literalProvider]\<rparr>
     [\<lparr>Key = ''Region'', Value = \<lparr>ExpectedDimensionValue.Value = Some ''us-west-2''\<rparr>\<rparr>,
      \<lparr>Key = ''InstanceId'', Value = UnknownDimensionValue\<rparr>]
   = Inl NilPointerDereference
   \<and> executeInstruction \<lparr>providers = [literalProvider]\<rparr>
       \<lparr>Key = ''Region'', Value = \<lparr>ExpectedDimensionValue.Value = Some ''us-west-2''\<rparr>\<rparr>
     = \<lparr>Dimension.Name = Some ''Region'', Value = Some ''us-west-2''\<rparr>
   \<and> executeInstruction \<lparr>providers = [literalProvider]\<rparr>
       \<lparr>Key = ''InstanceId'', Value = UnknownDimensionValue\<rparr> = emptyDimension"
  by (simp add: GetDimensions_def GetDimensions_run_def GetDimensions_body_def Let_def
      executeInstruction_def literalProvider_def UnknownDimensionValue_def emptyDimension_def
      logDimension_def deref_def)

text \<open>
  C4, where the code departs from it. Whenever the list holds an instruction that the
  factory resolves to the empty dimension, \<^verbatim>\<open>GetDimensions\<close> does not complete: the
  log line of the unfulfilled branch dereferences the nil name of the empty dimension,
  which is a panic.
\<close>

theorem GetDimensions_unfulfilled_panics:
  assumes "i \<in> set instructions" and "executeInstruction f i = emptyDimension"
  shows "GetDimensions f instructions = Inl NilPointerDereference"
  using assms by (rule GetDimensions_unfulfilled)

theorem GetDimensions_unfulfilled_panics_witness:
  "GetDimensions \<lparr>providers = []\<rparr> [\<lparr>Key = ''InstanceId'', Value = UnknownDimensionValue\<rparr>]
     = Inl NilPointerDereference"
  using GetDimensions_unfulfilled_panics
    [of "\<lparr>Key = ''InstanceId'', Value = UnknownDimensionValue\<rparr>"
        "[\<lparr>Key = ''InstanceId'', Value = UnknownDimensionValue\<rparr>]" "\<lparr>providers = []\<rparr>"]
  by (simp add: executeInstruction_def)

section \<open>Properties of the metric runners\<close>

lemma validateSwapMetric_resolved:
  assumes "GetDimensions (DimensionFactory t) [instanceIdInstruction] = Inr (dims, [])"
    and "fetch namespace metricName dims AVERAGE = Inr samples"
  shows "validateSwapMetric t namespace fetch metricName =
     (Inr \<lparr>TestResult.Name = metricName,
           Status = (if isAllValuesGreaterThanOrEqualToZero metricName samples
                     then SUCCESSFUL else FAILED)\<rparr>,
      [(namespace, metricName, dims, AVERAGE)])"
  using assms by (simp add: validateSwapMetric_def)

lemma ltZero_not_geZero: "ltZero v \<Longrightarrow> \<not> geZero v"
  by (cases v) auto

lemma negative_sample_fails:
  "list_ex ltZero samples \<Longrightarrow> \<not> isAllValuesGreaterThanOrEqualToZero m samples"
  using ltZero_not_geZero
  by (auto simp: isAllValuesGreaterThanOrEqualToZero_def list_ex_iff list_all_iff)

text \<open>
  C5. When the \<^verbatim>\<open>InstanceId\<close> instruction resolves and the fetch succeeds, the swap
  runner's verdict for the metric is successful if the samples are non-empty and all
  at least zero, failed if some sample is below zero, and failed if there is no sample.
\<close>

theorem validateSwapMetric_verdict:
  assumes "GetDimensions (DimensionFactory t) [instanceIdInstruction] = Inr (dims, [])"
    and "fetch namespace metricName dims AVERAGE = Inr samples"
  shows "(samples \<noteq> [] \<and> list_all geZero samples \<longrightarrow>
            fst (validateSwapMetric t namespace fetch metricName)
              = Inr \<lparr>TestResult.Name = metricName, Status = SUCCESSFUL\<rparr>)
       \<and> (list_ex ltZero samples \<longrightarrow>
            fst (validateSwapMetric t namespace fetch metricName)
              = Inr \<lparr>TestResult.Name = metricName, Status = FAILED\<rparr>)
       \<and> (samples = [] \<longrightarrow>
            fst (validateSwapMetric t namespace fetch metricName)
              = Inr \<lparr>TestResult.Name = metricName, Status = FAILED\<rparr>)"
proof -
  have run: "validateSwapMetric t namespace fetch metricName =
     (Inr \<lparr>TestResult.Name = metricName,
           Status = (if isAllValuesGreaterThanOrEqualToZero metricName samples
                     then SUCCESSFUL else FAILED)\<rparr>,
      [(namespace, metricName, dims, AVERAGE)])"
    using assms by (rule validateSwapMetric_resolved)
  show ?thesis
    using negative_sample_fails [of samples metricName]
    by (auto simp: run isAllValuesGreaterThanOrEqualToZero_def)
qed

lemma instanceId_resolves:
  "GetDimensions \<lparr>providers = [instanceIdProvider]\<rparr> [instanceIdInstruction]
     = Inr ([\<lparr>Dimension.Name = Some ''InstanceId'', Value = Some ''i-0123456789''\<rparr>], [])"
  by (simp add: GetDimensions_def GetDimensions_run_def GetDimensions_body_def Let_def
      executeInstruction_def instanceIdProvider_def instanceIdInstruction_def emptyDimension_def
      logDimension_def deref_def)

theorem validateSwapMetric_verdict_witness:
  "fst (validateSwapMetric \<lparr>DimensionFactory = \<lparr>providers = [instanceIdProvider]\<rparr>\<rparr> ''CWAgent''
         (\<lambda>ns m ds st. if m = ''swap_free'' then Inr [Finite 100, Finite 120] else Inr [Finite (-1)])
         ''swap_free'')
     = Inr \<lparr>TestResult.Name = ''swap_free'', Status = SUCCESSFUL\<rparr>
   \<and> fst (validateSwapMetric \<lparr>DimensionFactory = \<lparr>providers = [instanceIdProvider]\<rparr>\<rparr> ''CWAgent''
         (\<lambda>ns m ds st. if m = ''swap_free'' then Inr [Finite 100, Finite 120] else Inr [Finite (-1)])
         ''swap_used'')
     = Inr \<lparr>TestResult.Name = ''swap_used'', Status = FAILED\<rparr>"
  using validateSwapMetric_verdict
      [of "\<lparr>DimensionFactory = \<lparr>providers = [instanceIdProvider]\<rparr>\<rparr>"
          "[\<lparr>Dimension.Name = Some ''InstanceId'', Value = Some ''i-0123456789''\<rparr>]"
          "(\<lambda>ns m ds st. if m = ''swap_free'' then Inr [Finite 100, Finite 120] else Inr [Finite (-1)])"
          "''CWAgent''" "''swap_free''" "[Finite 100, Finite 120]"]
    validateSwapMetric_verdict
      [of "\<lparr>DimensionFactory = \<lparr>providers = [instanceIdProvider]\<rparr>\<rparr>"
          "[\<lparr>Dimension.Name = Some ''InstanceId'', Value = Some ''i-0123456789''\<rparr>]"
          "(\<lambda>ns m ds st. if m = ''swap_free'' then Inr [Finite 100, Finite 120] else Inr [Finite (-1)])"
          "''CWAgent''" "''swap_used''" "[Finite (-1)]"]
  by (simp add: instanceId_resolves)

text \<open>
  C7, where the code departs from it. When no provider of the runner's factory resolves
  the \<^verbatim>\<open>InstanceId\<close> instruction, neither runner returns a failed test result: the
  call of \<^verbatim>\<open>GetDimensions\<close> panics before the check of the unfulfilled list is
  reached. No \<^verbatim>\<open>Fetch\<close> call is made.
\<close>

theorem validate_unfulfilled_panics:
  assumes "executeInstruction (DimensionFactory t) instanceIdInstruction = emptyDimension"
  shows "validateSwapMetric t namespace fetch metricName = (Inl NilPointerDereference, [])
       \<and> validateMemMetric t namespace fetch metricName = (Inl NilPointerDereference, [])"
proof -
  have "GetDimensions (DimensionFactory t) [instanceIdInstruction] = Inl NilPointerDereference"
    using assms GetDimensions_unfulfilled [of instanceIdInstruction "[instanceIdInstruction]"]
    by simp
  then show ?thesis by (simp add: validateSwapMetric_def validateMemMetric_def)
qed

theorem validate_unfulfilled_panics_witness:
  "validateSwapMetric
      \<lparr>DimensionFactory = GetDimensionFactory [instanceIdProvider\<lparr>IsApplicable := False\<rparr>]\<rparr>
      ''CWAgent'' (\<lambda>ns m ds st. Inr [Finite 1]) ''swap_used'' = (Inl NilPointerDereference, [])
   \<and> validateMemMetric
      \<lparr>DimensionFactory = GetDimensionFactory [instanceIdProvider\<lparr>IsApplicable := False\<rparr>]\<rparr>
      ''CWAgent'' (\<lambda>ns m ds st. Inr [Finite 1]) ''mem_used'' = (Inl NilPointerDereference, [])"
  using validate_unfulfilled_panics
    [of "\<lparr>DimensionFactory = GetDimensionFactory [instanceIdProvider\<lparr>IsApplicable := False\<rparr>]\<rparr>"
        "''CWAgent''" "(\<lambda>ns m ds st. Inr [Finite 1])" "''swap_used''"]
    validate_unfulfilled_panics
    [of "\<lparr>DimensionFactory = GetDimensionFactory [instanceIdProvider\<lparr>IsApplicable := False\<rparr>]\<rparr>"
        "''CWAgent''" "(\<lambda>ns m ds st. Inr [Finite 1])" "''mem_used''"]
  by (simp add: GetDimensionFactory_def instanceIdProvider_def executeInstruction_def)


section \<open>Properties of the log functions\<close>

subsection \<open>One iteration of the loop of getLogsSince\<close>

lemma step_retry:
  assumes "GetLogEvents api (remote w) (request s) = (Inl err, b)"
    and "isResourceNotFound err" and "attempts s + 1 \<le> allowedRetries"
  shows "getLogsSince_loop (Suc fuel) api s w =
     getLogsSince_loop fuel api (s\<lparr>params := request s, attempts := attempts s + 1\<rparr>)
       (w\<lparr>remote := b, calls := calls w @ [(request s, Inl err)], slept := slept w @ [Minute]\<rparr>)"
  using assms by simp

lemma step_fail:
  assumes "GetLogEvents api (remote w) (request s) = (Inl err, b)"
    and "\<not> (isResourceNotFound err \<and> attempts s + 1 \<le> allowedRetries)"
  shows "getLogsSince_loop (Suc fuel) api s w =
     (Some (Inr (foundLogs s, Some err)),
      w\<lparr>remote := b, calls := calls w @ [(request s, Inl err)]\<rparr>)"
  using assms by auto

lemma step_panic:
  assumes "GetLogEvents api (remote w) (request s) = (Inr output, b)"
    and "appendMessages (foundLogs s) (Events output) = Inl p"
  shows "getLogsSince_loop (Suc fuel) api s w =
     (Some (Inl p), w\<lparr>remote := b, calls := calls w @ [(request s, Inr output)]\<rparr>)"
  using assms by simp

lemma step_stop:
  assumes "GetLogEvents api (remote w) (request s) = (Inr output, b)"
    and "appendMessages (foundLogs s) (Events output) = Inr logs"
    and "nextToken s \<noteq> None" and "NextForwardToken output = nextToken s"
  shows "getLogsSince_loop (Suc fuel) api s w =
     (Some (Inr (logs, None)), w\<lparr>remote := b, calls := calls w @ [(request s, Inr output)]\<rparr>)"
  using assms by simp

lemma step_continue:
  assumes "GetLogEvents api (remote w) (request s) = (Inr output, b)"
    and "appendMessages (foundLogs s) (Events output) = Inr logs"
    and "nextToken s = None \<or> NextForwardToken output \<noteq> nextToken s"
  shows "getLogsSince_loop (Suc fuel) api s w =
     getLogsSince_loop fuel api
       (s\<lparr>params := request s, nextToken := NextForwardToken output,
          attempts := attempts s + 1, foundLogs := logs\<rparr>)
       (w\<lparr>remote := b, calls := calls w @ [(request s, Inr output)]\<rparr>)"
  using assms by auto


subsection \<open>What a run of the loop leaves behind\<close>

lemma appendMessages_Inr:
  "appendMessages logs es = Inr logs' \<Longrightarrow> logs' = logs @ List.map_filter Message es"
proof (induction es arbitrary: logs)
  case Nil
  then show ?case by (simp add: List.map_filter_simps)
next
  case (Cons e es)
  then obtain m where m: "Message e = Some m" and rest: "appendMessages (logs @ [m]) es = Inr logs'"
    by (auto simp: deref_def split: option.splits)
  from Cons.IH [OF rest] show ?case by (simp add: List.map_filter_simps m)
qed

lemma appendMessages_complete:
  "appendMessages logs es = Inr logs' \<Longrightarrow> list_all (\<lambda>e. Message e \<noteq> None) es"
  by (induction es arbitrary: logs) (auto simp: deref_def split: option.splits)

lemma failures_last:
  "cs \<noteq> [] \<Longrightarrow> snd (last cs) = Inl e \<Longrightarrow> failures cs \<noteq> [] \<and> last (failures cs) = e"
  by (induction cs rule: failures.induct) (auto split: if_splits)

lemma post_fuel: "loop_post a logs0 [] 0 None"
  by (simp add: loop_post_def retried_def)

lemma post_fail:
  "\<not> (isResourceNotFound err \<and> a + 1 \<le> allowedRetries) \<Longrightarrow>
   loop_post a logs0 [(req, Inl err)] 0 (Some (Inr (logs0, Some err)))"
  by (auto simp: loop_post_def retried_def)

lemma post_panic: "loop_post a logs0 [(req, Inr output)] 0 (Some (Inl p))"
  by (simp add: loop_post_def retried_def)

lemma post_stop:
  "NextToken req \<noteq> None \<Longrightarrow> NextForwardToken output = NextToken req \<Longrightarrow>
   complete output \<Longrightarrow>
   loop_post a logs0 [(req, Inr output)] 0 (Some (Inr (logs0 @ messages output, None)))"
  by (simp add: loop_post_def retried_def)

lemma post_continue:
  "loop_post (a + 1) (logs0 @ messages output) new1 k1 r \<Longrightarrow> complete output \<Longrightarrow>
   loop_post a logs0 ((req, Inr output) # new1) k1 r"
  by (auto simp: loop_post_def retried_def split: option.splits sum.splits)

lemma post_retry:
  assumes "isResourceNotFound err" and "a + 1 \<le> allowedRetries"
    and "loop_post (a + 1) logs0 new1 k1 r"
  shows "loop_post a logs0 ((req, Inl err) # new1) (Suc k1) r"
proof (cases "\<exists>logs e. r = Some (Inr (logs, Some e))")
  case True
  then obtain logs e where r: "r = Some (Inr (logs, Some e))" by blast
  with assms(3) have "new1 \<noteq> []" and "snd (last new1) = Inl e"
    by (auto simp: loop_post_def)
  then have ne: "failures new1 \<noteq> []" using failures_last by blast
  show ?thesis
    using assms ne by (auto simp: loop_post_def retried_def r)
next
  case False
  then have eq: "retried ((req, Inl err) # new1) r = err # retried new1 r"
    by (auto simp: retried_def split: option.splits sum.splits)
  show ?thesis
    using assms False
    by (auto simp: loop_post_def eq split: option.splits sum.splits)
qed

lemma getLogsSince_loop_post:
  "getLogsSince_loop fuel api s w = (r, w') \<Longrightarrow>
   \<exists>new k. calls w' = calls w @ new \<and> slept w' = slept w @ replicate k Minute \<and>
      cwl w' = cwl w \<and> validatorCalls w' = validatorCalls w \<and>
      loop_post (attempts s) (foundLogs s) new k r"
proof (induction fuel arbitrary: s w)
  case 0
  then show ?case using post_fuel by auto
next
  case (Suc fuel)
  obtain resp b where call: "GetLogEvents api (remote w) (request s) = (resp, b)"
    by (cases "GetLogEvents api (remote w) (request s)")
  show ?case
  proof (cases resp)
    case (Inl err)
    note call' = call [unfolded Inl]
    show ?thesis
    proof (cases "isResourceNotFound err \<and> attempts s + 1 \<le> allowedRetries")
      case True
      then have "getLogsSince_loop fuel api (s\<lparr>params := request s, attempts := attempts s + 1\<rparr>)
          (w\<lparr>remote := b, calls := calls w @ [(request s, Inl err)], slept := slept w @ [Minute]\<rparr>) = (r, w')"
        using Suc.prems step_retry [OF call'] by simp
      from Suc.IH [OF this] obtain new1 k1 where
        c: "calls w' = calls w @ [(request s, Inl err)] @ new1"
        and z: "slept w' = slept w @ [Minute] @ replicate k1 Minute"
        and f: "cwl w' = cwl w" "validatorCalls w' = validatorCalls w"
        and p: "loop_post (attempts s + 1) (foundLogs s) new1 k1 r"
        by auto
      have "loop_post (attempts s) (foundLogs s) ((request s, Inl err) # new1) (Suc k1) r"
        using True p by (simp add: post_retry)
      moreover have "slept w' = slept w @ replicate (Suc k1) Minute" using z by simp
      ultimately show ?thesis using c f
        by (intro exI [of _ "(request s, Inl err) # new1"] exI [of _ "Suc k1"]) simp
    next
      case False
      then have "(r, w') = (Some (Inr (foundLogs s, Some err)),
          w\<lparr>remote := b, calls := calls w @ [(request s, Inl err)]\<rparr>)"
        using Suc.prems step_fail [OF call' False] by simp
      then have rw: "r = Some (Inr (foundLogs s, Some err))"
        "w' = w\<lparr>remote := b, calls := calls w @ [(request s, Inl err)]\<rparr>" by auto
      have "loop_post (attempts s) (foundLogs s) [(request s, Inl err)] 0 r"
        unfolding rw using False by (rule post_fail)
      moreover have "slept w' = slept w @ replicate 0 Minute" by (simp add: rw)
      ultimately show ?thesis unfolding rw(2) by (intro exI [of _ "[(request s, Inl err)]"] exI [of _ 0]) simp
    qed
  next
    case (Inr out)
    note call' = call [unfolded Inr]
    show ?thesis
    proof (cases "appendMessages (foundLogs s) (Events out)")
      case (Inl p)
      have "(r, w') = (Some (Inl p), w\<lparr>remote := b, calls := calls w @ [(request s, Inr out)]\<rparr>)"
        using Suc.prems step_panic [OF call' Inl] by simp
      then have rw: "r = Some (Inl p)"
        "w' = w\<lparr>remote := b, calls := calls w @ [(request s, Inr out)]\<rparr>" by auto
      have "loop_post (attempts s) (foundLogs s) [(request s, Inr out)] 0 r"
        unfolding rw by (rule post_panic)
      then show ?thesis unfolding rw(2) by (intro exI [of _ "[(request s, Inr out)]"] exI [of _ 0]) simp
    next
      case (Inr logs)
      then have logs: "logs = foundLogs s @ messages out"
        using appendMessages_Inr by (simp add: messages_def)
      have compl: "complete out"
        using Inr appendMessages_complete by (simp add: complete_def)
      show ?thesis
      proof (cases "nextToken s \<noteq> None \<and> NextForwardToken out = nextToken s")
        case True
        have "(r, w') = (Some (Inr (logs, None)), w\<lparr>remote := b, calls := calls w @ [(request s, Inr out)]\<rparr>)"
          using Suc.prems step_stop [OF call' Inr] True by simp
        then have rw: "r = Some (Inr (foundLogs s @ messages out, None))"
          "w' = w\<lparr>remote := b, calls := calls w @ [(request s, Inr out)]\<rparr>" by (auto simp: logs)
        have "NextToken (request s) \<noteq> None" "NextForwardToken out = NextToken (request s)"
          using True by (auto simp: request_def)
        then have "loop_post (attempts s) (foundLogs s) [(request s, Inr out)] 0 r"
          unfolding rw using compl by (rule post_stop)
        then show ?thesis unfolding rw(2) by (intro exI [of _ "[(request s, Inr out)]"] exI [of _ 0]) simp
      next
        case False
        then have "nextToken s = None \<or> NextForwardToken out \<noteq> nextToken s" by auto
        then have "getLogsSince_loop fuel api
            (s\<lparr>params := request s, nextToken := NextForwardToken out,
               attempts := attempts s + 1, foundLogs := logs\<rparr>)
            (w\<lparr>remote := b, calls := calls w @ [(request s, Inr out)]\<rparr>) = (r, w')"
          using Suc.prems step_continue [OF call' Inr] by simp
        from Suc.IH [OF this] obtain new1 k1 where
          c: "calls w' = calls w @ [(request s, Inr out)] @ new1"
          and z: "slept w' = slept w @ replicate k1 Minute"
          and f: "cwl w' = cwl w" "validatorCalls w' = validatorCalls w"
          and p: "loop_post (attempts s + 1) (foundLogs s @ messages out) new1 k1 r"
          by (auto simp: logs)
        have "loop_post (attempts s) (foundLogs s) ((request s, Inr out) # new1) k1 r"
          using p compl by (rule post_continue)
        then show ?thesis using c z f by auto
      qed
    qed
  qed
qed


lemma getCloudWatchLogsClient_frame:
  "getCloudWatchLogsClient api w = (e, w1) \<Longrightarrow>
   calls w1 = calls w \<and> slept w1 = slept w \<and> validatorCalls w1 = validatorCalls w \<and>
   remote w1 = remote w"
  by (auto simp: getCloudWatchLogsClient_def split: if_splits option.splits)

lemma getLogsSince_cases:
  assumes "getLogsSince fuel api logGroup logStream since until w = (r, w')"
  obtains (noClient) err where "getCloudWatchLogsClient api w = (Some err, w')"
      and "r = Some (Inr ([], Some err))"
    | (client) w1 where "getCloudWatchLogsClient api w = (None, w1)"
      and "getLogsSince_loop fuel api
            \<lparr>params = initialParams logGroup logStream since until, nextToken = None,
             attempts = 0, foundLogs = []\<rparr> w1 = (r, w')"
proof (cases "getCloudWatchLogsClient api w")
  case (Pair e w1)
  show ?thesis
  proof (cases e)
    case (Some err)
    then show ?thesis using assms Pair noClient by (auto simp: getLogsSince_def)
  next
    case None
    then show ?thesis using assms Pair client by (auto simp: getLogsSince_def)
  qed
qed

lemma getLogsSince_frame:
  assumes "getLogsSince fuel api logGroup logStream since until w = (r, w')"
  shows "validatorCalls w' = validatorCalls w"
  using assms
proof (cases rule: getLogsSince_cases)
  case (noClient err)
  then show ?thesis using getCloudWatchLogsClient_frame [OF noClient(1)] by simp
next
  case (client w1)
  then show ?thesis
    using getCloudWatchLogsClient_frame [OF client(1)] getLogsSince_loop_post [OF client(2)]
    by auto
qed

lemma getLogsSince_loop_first_call:
  "\<exists>resp new. calls (snd (getLogsSince_loop (Suc fuel) api s w)) = calls w @ (request s, resp) # new"
proof -
  obtain resp b where call: "GetLogEvents api (remote w) (request s) = (resp, b)"
    by (cases "GetLogEvents api (remote w) (request s)")
  obtain r w' where run: "getLogsSince_loop (Suc fuel) api s w = (r, w')"
    by (cases "getLogsSince_loop (Suc fuel) api s w")
  have "\<exists>new. calls w' = calls w @ (request s, resp) # new"
  proof (cases resp)
    case (Inl err)
    note call' = call [unfolded Inl]
    show ?thesis
    proof (cases "isResourceNotFound err \<and> attempts s + 1 \<le> allowedRetries")
      case True
      then have "getLogsSince_loop fuel api (s\<lparr>params := request s, attempts := attempts s + 1\<rparr>)
          (w\<lparr>remote := b, calls := calls w @ [(request s, Inl err)], slept := slept w @ [Minute]\<rparr>) = (r, w')"
        using run step_retry [OF call'] by simp
      from getLogsSince_loop_post [OF this] show ?thesis by (auto simp: Inl)
    next
      case False
      then show ?thesis using run step_fail [OF call' False] by (auto simp: Inl)
    qed
  next
    case (Inr out)
    note call' = call [unfolded Inr]
    show ?thesis
    proof (cases "appendMessages (foundLogs s) (Events out)")
      case (Inl p)
      then show ?thesis using run step_panic [OF call' Inl] by (auto simp: Inr)
    next
      case logs: (Inr logs)
      show ?thesis
      proof (cases "nextToken s \<noteq> None \<and> NextForwardToken out = nextToken s")
        case True
        then show ?thesis using run step_stop [OF call' logs] by (auto simp: Inr)
      next
        case False
        then have "nextToken s = None \<or> NextForwardToken out \<noteq> nextToken s" by auto
        then have "getLogsSince_loop fuel api
            (s\<lparr>params := request s, nextToken := NextForwardToken out,
               attempts := attempts s + 1, foundLogs := logs\<rparr>)
            (w\<lparr>remote := b, calls := calls w @ [(request s, Inr out)]\<rparr>) = (r, w')"
          using run step_continue [OF call' logs] by simp
        from getLogsSince_loop_post [OF this] show ?thesis by (auto simp: Inr)
      qed
    qed
  qed
  then show ?thesis unfolding run snd_conv by blast
qed

subsection \<open>Pagination\<close>

text \<open>
  C3, as the code has it. When the loop holds a token (the token of the latest
  successful answer, which the request then carries) and the answer carries the same
  token, the function returns after this call: the trace ends with it. An answer
  without a token does not end the pagination: a page without a token, all of whose
  events have a message, is followed by a further call.
\<close>

theorem getLogsSince_repeated_token_stops:
  assumes "GetLogEvents api (remote w) (request s) = (Inr out, b)"
  shows "(nextToken s \<noteq> None \<and> NextForwardToken out = nextToken s \<longrightarrow>
            NextToken (request s) = NextForwardToken out \<and>
            (\<exists>r. getLogsSince_loop (Suc fuel) api s w =
                   (Some r, w\<lparr>remote := b, calls := calls w @ [(request s, Inr out)]\<rparr>)))
       \<and> (NextForwardToken out = None \<and> complete out \<longrightarrow>
            (\<exists>c new. calls (snd (getLogsSince_loop (Suc (Suc fuel)) api s w))
                        = calls w @ (request s, Inr out) # c # new))"
proof (intro conjI impI)
  assume t: "nextToken s \<noteq> None \<and> NextForwardToken out = nextToken s"
  then show "NextToken (request s) = NextForwardToken out" by (simp add: request_def)
  show "\<exists>r. getLogsSince_loop (Suc fuel) api s w =
           (Some r, w\<lparr>remote := b, calls := calls w @ [(request s, Inr out)]\<rparr>)"
  proof (cases "appendMessages (foundLogs s) (Events out)")
    case (Inl p)
    then show ?thesis using step_panic [OF assms Inl] by simp
  next
    case (Inr logs)
    then show ?thesis using step_stop [OF assms Inr] t by simp
  qed
next
  assume a: "NextForwardToken out = None \<and> complete out"
  have "\<exists>logs. appendMessages logs0 es = Inr logs" if "list_all (\<lambda>e. Message e \<noteq> None) es"
    for logs0 es using that
    by (induction es arbitrary: logs0) (auto simp: deref_def)
  then obtain logs where logs: "appendMessages (foundLogs s) (Events out) = Inr logs"
    using a unfolding complete_def by blast
  have "nextToken s = None \<or> NextForwardToken out \<noteq> nextToken s" using a by auto
  from step_continue [OF assms logs this, of "Suc fuel"]
    getLogsSince_loop_first_call [of fuel api
      "s\<lparr>params := request s, nextToken := NextForwardToken out,
          attempts := attempts s + 1, foundLogs := logs\<rparr>"
      "w\<lparr>remote := b, calls := calls w @ [(request s, Inr out)]\<rparr>"]
  show "\<exists>c new. calls (snd (getLogsSince_loop (Suc (Suc fuel)) api s w))
                        = calls w @ (request s, Inr out) # c # new"
    by (auto simp del: getLogsSince_loop.simps)
qed

theorem getLogsSince_repeated_token_stops_witness:
  "NextToken (request \<lparr>params = initialParams ''g'' ''s'' None None, nextToken = Some ''t1'',
                       attempts = 1, foundLogs = [''a'']\<rparr>) = Some ''t1''
   \<and> (\<exists>r. getLogsSince_loop (Suc 5) scripted
          \<lparr>params = initialParams ''g'' ''s'' None None, nextToken = Some ''t1'',
           attempts = 1, foundLogs = [''a'']\<rparr>
          (world0 [Inr \<lparr>Events = [\<lparr>Message = Some ''b''\<rparr>], NextForwardToken = Some ''t1''\<rparr>,
                   Inr \<lparr>Events = [\<lparr>Message = Some ''c''\<rparr>], NextForwardToken = Some ''t2''\<rparr>])
        = (Some r,
           \<lparr>cwl = None,
            remote = [Inr \<lparr>Events = [\<lparr>Message = Some ''c''\<rparr>], NextForwardToken = Some ''t2''\<rparr>],
            calls = [((initialParams ''g'' ''s'' None None)\<lparr>NextToken := Some ''t1''\<rparr>,
                      Inr \<lparr>Events = [\<lparr>Message = Some ''b''\<rparr>], NextForwardToken = Some ''t1''\<rparr>)],
            slept = [], validatorCalls = []\<rparr>))"
  using getLogsSince_repeated_token_stops
    [of scripted
        "world0 [Inr \<lparr>Events = [\<lparr>Message = Some ''b''\<rparr>], NextForwardToken = Some ''t1''\<rparr>,
                 Inr \<lparr>Events = [\<lparr>Message = Some ''c''\<rparr>], NextForwardToken = Some ''t2''\<rparr>]"
        "\<lparr>params = initialParams ''g'' ''s'' None None, nextToken = Some ''t1'',
          attempts = 1, foundLogs = [''a'']\<rparr>"
        "\<lparr>Events = [\<lparr>Message = Some ''b''\<rparr>], NextForwardToken = Some ''t1''\<rparr>"
        "[Inr \<lparr>Events = [\<lparr>Message = Some ''c''\<rparr>], NextForwardToken = Some ''t2''\<rparr>]" 5]
  by (simp add: scripted_def world0_def request_def del: getLogsSince_loop.simps)

text \<open>
  C3 as stated fails. After an answer without a token the function calls
  \<^verbatim>\<open>GetLogEvents\<close> again: the trace of the first run has a second call. In the second
  run the third request still carries the token \<^verbatim>\<open>A\<close> of the first answer, the loop's
  own token being nil after the second answer; its answer carries \<^verbatim>\<open>A\<close> too, and a
  fourth call follows all the same.
\<close>

theorem getLogsSince_absent_token_counterexample:
  "map snd (calls (snd (getLogsSince 10 scripted ''g'' ''s'' None None
      (world0 [Inr \<lparr>Events = [], NextForwardToken = None\<rparr>]))))
   = [Inr \<lparr>Events = [], NextForwardToken = None\<rparr>, Inl (OtherError ''end of script'')]
   \<and> map tokens (calls (snd (getLogsSince 10 scripted ''g'' ''s'' None None
      (world0 [Inr \<lparr>Events = [], NextForwardToken = Some ''A''\<rparr>,
               Inr \<lparr>Events = [], NextForwardToken = None\<rparr>,
               Inr \<lparr>Events = [], NextForwardToken = Some ''A''\<rparr>,
               Inr \<lparr>Events = [], NextForwardToken = Some ''A''\<rparr>]))))
   = [(None, Some ''A''), (Some ''A'', None), (Some ''A'', Some ''A''), (Some ''A'', Some ''A'')]"
  by code_simp

subsection \<open>Retries\<close>

lemma request_idem [simp]:
  "request (s\<lparr>params := request s, attempts := a\<rparr>) = request s"
  by (simp add: request_def)

lemma rule_fuel: "retryRule 0 a [] None"
  by (simp add: retryRule_def)

lemma rule_fail:
  "\<not> (isResourceNotFound err \<and> a + 1 \<le> allowedRetries) \<Longrightarrow>
   retryRule (Suc fuel) a [(req, Inl err)] (Some (Inr (logs, Some err)))"
  by (auto simp: retryRule_def)

lemma rule_page: "retryRule (Suc fuel) a [(req, Inr out)] (Some x)"
  by (simp add: retryRule_def)

lemma rule_cons_page:
  assumes "retryRule fuel (a + 1) new1 r"
  shows "retryRule (Suc fuel) a ((req, Inr out) # new1) r"
  unfolding retryRule_def
proof (intro conjI allI impI)
  show "length ((req, Inr out) # new1) = Suc fuel" if "r = None"
    using assms that by (simp add: retryRule_def)
next
  fix i err
  assume h: "i < length ((req, Inr out) # new1) \<and> snd (((req, Inr out) # new1) ! i) = Inl err"
  then obtain j where i: "i = Suc j" by (cases i) auto
  with h have j: "j < length new1 \<and> snd (new1 ! j) = Inl err" by simp
  have "a + 1 + int j + 1 = a + int i + 1" by (simp add: i)
  with assms j show "if isResourceNotFound err \<and> a + int i + 1 \<le> allowedRetries
          then (Suc i < length ((req, Inr out) # new1) \<and>
                fst (((req, Inr out) # new1) ! Suc i) = fst (((req, Inr out) # new1) ! i)) \<or>
               (Suc i = length ((req, Inr out) # new1) \<and> r = None)
          else Suc i = length ((req, Inr out) # new1) \<and> (\<exists>logs. r = Some (Inr (logs, Some err)))"
    unfolding retryRule_def i by (auto split: if_splits)
qed

lemma rule_cons_retry:
  assumes "isResourceNotFound e" and "a + 1 \<le> allowedRetries"
    and "retryRule fuel (a + 1) new1 r"
    and "(new1 = [] \<and> r = None) \<or> (new1 \<noteq> [] \<and> fst (hd new1) = req)"
  shows "retryRule (Suc fuel) a ((req, Inl e) # new1) r"
  unfolding retryRule_def
proof (intro conjI allI impI)
  show "length ((req, Inl e) # new1) = Suc fuel" if "r = None"
    using assms(3) that by (simp add: retryRule_def)
next
  fix i err
  assume h: "i < length ((req, Inl e) # new1) \<and> snd (((req, Inl e) # new1) ! i) = Inl err"
  show "if isResourceNotFound err \<and> a + int i + 1 \<le> allowedRetries
          then (Suc i < length ((req, Inl e) # new1) \<and>
                fst (((req, Inl e) # new1) ! Suc i) = fst (((req, Inl e) # new1) ! i)) \<or>
               (Suc i = length ((req, Inl e) # new1) \<and> r = None)
          else Suc i = length ((req, Inl e) # new1) \<and> (\<exists>logs. r = Some (Inr (logs, Some err)))"
  proof (cases i)
    case 0
    then have "err = e" using h by simp
    then show ?thesis using assms(1,2,4) 0 by (cases new1) auto
  next
    case (Suc j)
    with h have j: "j < length new1 \<and> snd (new1 ! j) = Inl err" by simp
    have "a + 1 + int j + 1 = a + int i + 1" by (simp add: Suc)
    with assms(3) j show ?thesis
      unfolding retryRule_def Suc by (auto split: if_splits)
  qed
qed


lemma getLogsSince_loop_retryRule:
  assumes "getLogsSince_loop fuel api s w = (r, w')" and "calls w' = calls w @ new"
  shows "retryRule fuel (attempts s) new r"
  using assms
proof (induction fuel arbitrary: s w new)
  case 0
  then show ?case using rule_fuel by auto
next
  case (Suc fuel)
  obtain resp b where call: "GetLogEvents api (remote w) (request s) = (resp, b)"
    by (cases "GetLogEvents api (remote w) (request s)")
  show ?case
  proof (cases resp)
    case (Inl err)
    note call' = call [unfolded Inl]
    show ?thesis
    proof (cases "isResourceNotFound err \<and> attempts s + 1 \<le> allowedRetries")
      case True
      let ?s1 = "s\<lparr>params := request s, attempts := attempts s + 1\<rparr>"
      let ?w1 = "w\<lparr>remote := b, calls := calls w @ [(request s, Inl err)], slept := slept w @ [Minute]\<rparr>"
      have rec: "getLogsSince_loop fuel api ?s1 ?w1 = (r, w')"
        using Suc.prems(1) True step_retry [OF call'] by simp
      from getLogsSince_loop_post [OF rec] obtain new1 where
        c: "calls w' = calls ?w1 @ new1" by auto
      then have new: "new = (request s, Inl err) # new1" using Suc.prems(2) by simp
      have ih: "retryRule fuel (attempts s + 1) new1 r"
        using Suc.IH [OF rec c] by simp
      have nxt: "(new1 = [] \<and> r = None) \<or> (new1 \<noteq> [] \<and> fst (hd new1) = request s)"
      proof (cases fuel)
        case 0
        then show ?thesis using rec c by auto
      next
        case (Suc n)
        from getLogsSince_loop_first_call [of n api ?s1 ?w1]
        obtain resp1 rest where
          "calls (snd (getLogsSince_loop (Suc n) api ?s1 ?w1)) = calls ?w1 @ (request ?s1, resp1) # rest"
          by blast
        then have "new1 = (request s, resp1) # rest"
          using rec c unfolding Suc by (simp del: getLogsSince_loop.simps)
        then show ?thesis by simp
      qed
      show ?thesis unfolding new using True ih nxt by (simp add: rule_cons_retry)
    next
      case False
      then have "(r, w') = (Some (Inr (foundLogs s, Some err)),
          w\<lparr>remote := b, calls := calls w @ [(request s, Inl err)]\<rparr>)"
        using Suc.prems(1) step_fail [OF call' False] by simp
      then have "r = Some (Inr (foundLogs s, Some err))" "new = [(request s, Inl err)]"
        using Suc.prems(2) by auto
      then show ?thesis using False by (simp add: rule_fail)
    qed
  next
    case (Inr out)
    note call' = call [unfolded Inr]
    show ?thesis
    proof (cases "appendMessages (foundLogs s) (Events out)")
      case (Inl p)
      have "(r, w') = (Some (Inl p), w\<lparr>remote := b, calls := calls w @ [(request s, Inr out)]\<rparr>)"
        using Suc.prems(1) step_panic [OF call' Inl] by simp
      then have "r = Some (Inl p)" "new = [(request s, Inr out)]"
        using Suc.prems(2) by auto
      then show ?thesis by (simp add: rule_page)
    next
      case logs: (Inr logs)
      show ?thesis
      proof (cases "nextToken s \<noteq> None \<and> NextForwardToken out = nextToken s")
        case True
        have "(r, w') = (Some (Inr (logs, None)), w\<lparr>remote := b, calls := calls w @ [(request s, Inr out)]\<rparr>)"
          using Suc.prems(1) step_stop [OF call' logs] True by simp
        then have "r = Some (Inr (logs, None))" "new = [(request s, Inr out)]"
          using Suc.prems(2) by auto
        then show ?thesis by (simp add: rule_page)
      next
        case False
        let ?s1 = "s\<lparr>params := request s, nextToken := NextForwardToken out,
               attempts := attempts s + 1, foundLogs := logs\<rparr>"
        let ?w1 = "w\<lparr>remote := b, calls := calls w @ [(request s, Inr out)]\<rparr>"
        from False have "nextToken s = None \<or> NextForwardToken out \<noteq> nextToken s" by auto
        then have rec: "getLogsSince_loop fuel api ?s1 ?w1 = (r, w')"
          using Suc.prems(1) step_continue [OF call' logs] by simp
        from getLogsSince_loop_post [OF rec] obtain new1 where
          c: "calls w' = calls ?w1 @ new1" by auto
        then have new: "new = (request s, Inr out) # new1" using Suc.prems(2) by simp
        have "retryRule fuel (attempts s + 1) new1 r"
          using Suc.IH [OF rec c] by simp
        then show ?thesis unfolding new by (rule rule_cons_page)
      qed
    qed
  qed
qed

text \<open>
  C6, as the code has it. The counter \<^verbatim>\<open>attempts\<close> counts every \<^verbatim>\<open>GetLogEvents\<close>
  call of a run, the successful ones too. In every run of \<^verbatim>\<open>getLogsSince\<close>, with
  \<open>new\<close> the calls it made: a call that fails with a resource-not-found error and is
  among the first five calls is followed by a call with the same request (or the fuel
  ends there, which happens only when as many calls were made as there was fuel); a
  call that fails in any other way is the last call and the run returns its error. One
  sleep of a minute is made for each failed call that is followed by another attempt,
  at most five in a run.
\<close>

theorem getLogsSince_retry_policy:
  assumes "getLogsSince fuel api logGroup logStream since until w = (r, w')"
  shows "\<exists>new k. calls w' = calls w @ new \<and> slept w' = slept w @ replicate k Minute \<and>
      int k \<le> allowedRetries \<and> k = length (retried new r) \<and>
      list_all isResourceNotFound (retried new r) \<and>
      (r = None \<longrightarrow> length new = fuel) \<and>
      (\<forall>i err. i < length new \<and> snd (new ! i) = Inl err \<longrightarrow>
         (if isResourceNotFound err \<and> int i + 1 \<le> allowedRetries
          then (Suc i < length new \<and> fst (new ! Suc i) = fst (new ! i)) \<or>
               (Suc i = length new \<and> r = None)
          else Suc i = length new \<and> (\<exists>logs. r = Some (Inr (logs, Some err)))))"
  using assms
proof (cases rule: getLogsSince_cases)
  case (noClient err)
  then show ?thesis using getCloudWatchLogsClient_frame [OF noClient(1)]
    by (intro exI [of _ "[]"] exI [of _ 0]) (simp add: retried_def allowedRetries_def)
next
  case (client w1)
  note fr = getCloudWatchLogsClient_frame [OF client(1)]
  from getLogsSince_loop_post [OF client(2)] obtain new k where
      c: "calls w' = calls w1 @ new" "slept w' = slept w1 @ replicate k Minute"
      and p: "loop_post 0 [] new k r"
    by auto
  have "int k \<le> allowedRetries" "k = length (retried new r)"
    "list_all isResourceNotFound (retried new r)"
    using p by (auto simp: loop_post_def allowedRetries_def)
  moreover have "retryRule fuel 0 new r"
    using getLogsSince_loop_retryRule [OF client(2) c(1)] by simp
  then have "(r = None \<longrightarrow> length new = fuel) \<and>
      (\<forall>i err. i < length new \<and> snd (new ! i) = Inl err \<longrightarrow>
         (if isResourceNotFound err \<and> int i + 1 \<le> allowedRetries
          then (Suc i < length new \<and> fst (new ! Suc i) = fst (new ! i)) \<or>
               (Suc i = length new \<and> r = None)
          else Suc i = length new \<and> (\<exists>logs. r = Some (Inr (logs, Some err)))))"
    unfolding retryRule_def by simp
  ultimately show ?thesis using c fr
    by (intro exI [of _ new] exI [of _ k]) simp
qed

theorem getLogsSince_retry_policy_witness:
  "\<exists>new k. calls (snd (getLogsSince 10 scripted ''g'' ''s'' None None (world0 (replicate 7 notFound))))
        = new
      \<and> slept (snd (getLogsSince 10 scripted ''g'' ''s'' None None (world0 (replicate 7 notFound))))
        = replicate k Minute
      \<and> k = 5 \<and> length new = 6
      \<and> fst (getLogsSince 10 scripted ''g'' ''s'' None None (world0 (replicate 7 notFound)))
        = Some (Inr ([], Some (ResourceNotFoundException ''log stream'')))"
proof -
  have ev: "fst (getLogsSince 10 scripted ''g'' ''s'' None None (world0 (replicate 7 notFound)))
     = Some (Inr ([], Some (ResourceNotFoundException ''log stream'')))"
    "slept (snd (getLogsSince 10 scripted ''g'' ''s'' None None (world0 (replicate 7 notFound))))
     = replicate 5 Minute"
    "length (calls (snd (getLogsSince 10 scripted ''g'' ''s'' None None (world0 (replicate 7 notFound))))) = 6"
    by code_simp+
  from getLogsSince_retry_policy [OF prod.collapse [symmetric]]
  obtain new k where
    "calls (snd (getLogsSince 10 scripted ''g'' ''s'' None None (world0 (replicate 7 notFound))))
       = calls (world0 (replicate 7 notFound)) @ new"
    "slept (snd (getLogsSince 10 scripted ''g'' ''s'' None None (world0 (replicate 7 notFound))))
       = slept (world0 (replicate 7 notFound)) @ replicate k Minute"
    "int k \<le> allowedRetries"
    by blast
  then show ?thesis using ev by (auto simp: world0_def Minute_def)
qed

text \<open>
  C6 as stated fails. The service answers five calls with a page each and the sixth
  with a resource-not-found error. No retry was made before, yet the error is returned
  at once: the run made six calls and no sleep, and the answer that the script held for
  a seventh call is still there.
\<close>

theorem getLogsSince_not_found_after_pages_counterexample:
  "fst (getLogsSince 10 scripted ''g'' ''s'' None None (world0 fivePagesThenNotFound))
     = Some (Inr ([''m1'', ''m2'', ''m3'', ''m4'', ''m5''],
                  Some (ResourceNotFoundException ''log stream'')))
   \<and> slept (snd (getLogsSince 10 scripted ''g'' ''s'' None None (world0 fivePagesThenNotFound))) = []
   \<and> map snd (calls (snd (getLogsSince 10 scripted ''g'' ''s'' None None (world0 fivePagesThenNotFound))))
     = [page ''m1'' ''t1'', page ''m2'' ''t2'', page ''m3'' ''t3'', page ''m4'' ''t4'',
        page ''m5'' ''t5'', notFound]
   \<and> remote (snd (getLogsSince 10 scripted ''g'' ''s'' None None (world0 fivePagesThenNotFound)))
     = [page ''m6'' ''t6'']"
  by code_simp


subsection \<open>ValidateLogs\<close>

text \<open>
  C8. When \<^verbatim>\<open>since\<close> is given and the fetch succeeds with the logs \<open>logs\<close>,
  \<^verbatim>\<open>ValidateLogs\<close> returns what the validator says of \<open>logs\<close>, with no error, and
  the validator was called once, with \<open>logs\<close>; \<open>logs\<close> are the messages of all
  events of all pages the fetch received, in the order received, and no event lacked
  its message.
\<close>

theorem ValidateLogs_validates_all_messages:
  assumes "since = Some t"
    and "getLogsSince fuel api logGroup logStream since until w = (Some (Inr (logs, None)), w1)"
  shows "ValidateLogs fuel api logGroup logStream since until validator w
           = (Some (Inr (validator logs, None)), w1\<lparr>validatorCalls := validatorCalls w @ [logs]\<rparr>)
       \<and> (\<exists>new. calls w1 = calls w @ new \<and> list_all complete (pages new) \<and>
             logs = concat (map messages (pages new)))"
proof
  show "ValidateLogs fuel api logGroup logStream since until validator w
           = (Some (Inr (validator logs, None)), w1\<lparr>validatorCalls := validatorCalls w @ [logs]\<rparr>)"
    using assms getLogsSince_frame [OF assms(2)]
    by (simp add: ValidateLogs_def deref_def)
  from assms(2) show "\<exists>new. calls w1 = calls w @ new \<and> list_all complete (pages new) \<and>
             logs = concat (map messages (pages new))"
  proof (cases rule: getLogsSince_cases)
    case (noClient err)
    then show ?thesis by simp
  next
    case (client w2)
    from getLogsSince_loop_post [OF client(2)] obtain new k where
      "calls w1 = calls w2 @ new" and "loop_post 0 [] new k (Some (Inr (logs, None)))"
      by auto
    then show ?thesis using getCloudWatchLogsClient_frame [OF client(1)]
      by (auto simp: loop_post_def)
  qed
qed

theorem ValidateLogs_validates_all_messages_witness:
  "fst (ValidateLogs 10 scripted ''g'' ''s'' (Some \<lparr>UnixNano = 0\<rparr>) None
          (\<lambda>logs. length logs = 3) (world0 twoPages)) = Some (Inr (True, None))
   \<and> validatorCalls (snd (ValidateLogs 10 scripted ''g'' ''s'' (Some \<lparr>UnixNano = 0\<rparr>) None
          (\<lambda>logs. length logs = 3) (world0 twoPages))) = [[''a'', ''b'', ''c'']]"
proof -
  have "fst (getLogsSince 10 scripted ''g'' ''s'' (Some \<lparr>UnixNano = 0\<rparr>) None (world0 twoPages))
          = Some (Inr ([''a'', ''b'', ''c''], None))"
    by code_simp
  then have run: "getLogsSince 10 scripted ''g'' ''s'' (Some \<lparr>UnixNano = 0\<rparr>) None (world0 twoPages)
          = (Some (Inr ([''a'', ''b'', ''c''], None)),
             snd (getLogsSince 10 scripted ''g'' ''s'' (Some \<lparr>UnixNano = 0\<rparr>) None (world0 twoPages)))"
    by (metis prod.collapse)
  show ?thesis
    using ValidateLogs_validates_all_messages [OF refl run, of "\<lambda>logs. length logs = 3"]
    by (simp add: world0_def)
qed

subsection \<open>IsLogGroupExists\<close>

text \<open>
  C10. \<^verbatim>\<open>IsLogGroupExists\<close> is true when the client is there and
  \<^verbatim>\<open>DescribeLogGroups\<close> reports a log group whose name starts with the given name; it
  is false when the client cannot be made and when \<^verbatim>\<open>DescribeLogGroups\<close> fails.
\<close>

theorem IsLogGroupExists_prefix_match:
  "(fst (getCloudWatchLogsClient api w) = None \<and>
      fst (DescribeLogGroups api (remote w) \<lparr>LogGroupNamePrefix = Some logGroupName\<rparr>) = Inr out \<and>
      list_ex (\<lambda>g. case LogGroup.LogGroupName g of None \<Rightarrow> False | Some n \<Rightarrow> prefix logGroupName n)
        (LogGroups out)
      \<longrightarrow> fst (IsLogGroupExists api logGroupName w))
   \<and> (fst (getCloudWatchLogsClient api w) = Some err
      \<longrightarrow> \<not> fst (IsLogGroupExists api logGroupName w))
   \<and> (fst (getCloudWatchLogsClient api w) = None \<and>
      fst (DescribeLogGroups api (remote w) \<lparr>LogGroupNamePrefix = Some logGroupName\<rparr>) = Inl err
      \<longrightarrow> \<not> fst (IsLogGroupExists api logGroupName w))"
proof -
  obtain e w1 where c: "getCloudWatchLogsClient api w = (e, w1)"
    by (cases "getCloudWatchLogsClient api w")
  have r: "remote w1 = remote w" using getCloudWatchLogsClient_frame [OF c] by simp
  obtain d b where d: "DescribeLogGroups api (remote w) \<lparr>LogGroupNamePrefix = Some logGroupName\<rparr> = (d, b)"
    by (cases "DescribeLogGroups api (remote w) \<lparr>LogGroupNamePrefix = Some logGroupName\<rparr>")
  show ?thesis
    by (cases e; cases d) (auto simp: IsLogGroupExists_def c r d list_ex_iff)
qed

theorem IsLogGroupExists_prefix_match_witness:
  "fst (IsLogGroupExists groupsService ''/aws/test'' (world0 [''/aws/test-group-1'', ''/other'']))
   \<and> \<not> fst (IsLogGroupExists (groupsService\<lparr>LoadDefaultConfig := (\<lambda>b. Some (OtherError ''no credentials''))\<rparr>)
             ''/aws/test'' (world0 [''/aws/test-group-1'', ''/other'']))
   \<and> \<not> fst (IsLogGroupExists (groupsService\<lparr>DescribeLogGroups := (\<lambda>b input. (Inl (OtherError ''denied''), b))\<rparr>)
             ''/aws/test'' (world0 [''/aws/test-group-1'', ''/other'']))"
  using IsLogGroupExists_prefix_match
      [of groupsService "world0 [''/aws/test-group-1'', ''/other'']" "''/aws/test''"
          "\<lparr>LogGroups = [\<lparr>LogGroup.LogGroupName = Some ''/aws/test-group-1''\<rparr>]\<rparr>"]
    IsLogGroupExists_prefix_match
      [of "groupsService\<lparr>LoadDefaultConfig := (\<lambda>b. Some (OtherError ''no credentials''))\<rparr>"
          "world0 [''/aws/test-group-1'', ''/other'']" "''/aws/test''" _ "OtherError ''no credentials''"]
    IsLogGroupExists_prefix_match
      [of "groupsService\<lparr>DescribeLogGroups := (\<lambda>b input. (Inl (OtherError ''denied''), b))\<rparr>"
          "world0 [''/aws/test-group-1'', ''/other'']" "''/aws/test''" _ "OtherError ''denied''"]
  by (simp add: groupsService_def world0_def getCloudWatchLogsClient_def)

end
